theory Spec2Isabelle
  imports Main "HOL-Library.Sublist" "HOL-Library.Char_ord" "HOL-Library.While_Combinator"
begin

section \<open>Go strings\<close>

text \<open>
  A Go string is a sequence of bytes, and so is a HOL \<open>string\<close> (a list of 8-bit
  characters). The functions of package \<open>strings\<close> that the router calls are written
  out here; a one-byte separator such as \<open>":"\<close> is passed as a character.
\<close>

definition byte :: "char \<Rightarrow> nat" where
  "byte c = of_char c"

definition HasPrefix :: "string \<Rightarrow> string \<Rightarrow> bool" where
  "HasPrefix s p = prefix p s"

definition HasSuffix :: "string \<Rightarrow> string \<Rightarrow> bool" where
  "HasSuffix s p = suffix p s"

definition TrimPrefix :: "string \<Rightarrow> string \<Rightarrow> string" where
  "TrimPrefix s p = (if HasPrefix s p then drop (length p) s else s)"

definition TrimSuffix :: "string \<Rightarrow> string \<Rightarrow> string" where
  "TrimSuffix s p = (if HasSuffix s p then take (length s - length p) s else s)"

text \<open>\<open>strings.IndexByte\<close>: the position of the first occurrence, \<open>None\<close> for Go's -1.\<close>

fun IndexByte :: "string \<Rightarrow> char \<Rightarrow> nat option" where
  "IndexByte [] c = None"
| "IndexByte (x # xs) c = (if x = c then Some 0 else map_option Suc (IndexByte xs c))"

text \<open>\<open>strings.Index\<close> for a separator of any length.\<close>

fun Index :: "string \<Rightarrow> string \<Rightarrow> nat option" where
  "Index [] sep = (if sep = [] then Some 0 else None)"
| "Index (x # xs) sep =
     (if prefix sep (x # xs) then Some 0 else map_option Suc (Index xs sep))"

text \<open>\<open>strings.LastIndex\<close> for a one-byte separator.\<close>

definition LastIndexByte :: "string \<Rightarrow> char \<Rightarrow> nat option" where
  "LastIndexByte s c =
     (case IndexByte (rev s) c of None \<Rightarrow> None | Some j \<Rightarrow> Some (length s - 1 - j))"

text \<open>\<open>strings.Count\<close> and \<open>strings.Contains\<close> for a one-byte separator.\<close>

definition Count :: "string \<Rightarrow> char \<Rightarrow> nat" where
  "Count s c = count_list s c"

definition Contains :: "string \<Rightarrow> char \<Rightarrow> bool" where
  "Contains s c = (IndexByte s c \<noteq> None)"

text \<open>
  \<open>strings.Split(s, sep)\<close> for a one-byte separator: the loop of \<open>genSplit\<close>, which
  cuts at each occurrence of the separator and keeps what is left as the last segment.
\<close>

function Split :: "string \<Rightarrow> char \<Rightarrow> string list" where
  "Split s sep =
     (case IndexByte s sep of
        None \<Rightarrow> [s]
      | Some m \<Rightarrow> take m s # Split (drop (m + 1) s) sep)"
  by pat_completeness auto
termination
proof (relation "measure (\<lambda>(s, sep). length s)")
  show "wf (measure (\<lambda>(s, sep). length s))" by simp
next
  fix s :: string and sep :: char and m :: nat
  assume "IndexByte s sep = Some m"
  then have "s \<noteq> []" by (cases s) auto
  then show "((drop (m + 1) s, sep), (s, sep)) \<in> measure (\<lambda>(s, sep). length s)"
    by simp
qed

section \<open>Runes and case folding\<close>

text \<open>
  \<open>utf8.DecodeRuneInString\<close>: the first rune of a string and the number of bytes it
  takes. A byte sequence that is not valid UTF-8 decodes to \<open>RuneError\<close> of width 1.
  \<open>first\<close> gives, for a leading byte of a multi-byte sequence, the length of the sequence
  and the range accepted for its second byte (the tables \<open>first\<close> and \<open>acceptRanges\<close>).
\<close>

definition RuneError :: nat where
  "RuneError = 0xFFFD"

definition RuneSelf :: nat where
  "RuneSelf = 0x80"

definition first :: "nat \<Rightarrow> (nat \<times> nat \<times> nat) option" where
  "first b =
     (if 0xC2 \<le> b \<and> b \<le> 0xDF then Some (2, 0x80, 0xBF)
      else if b = 0xE0 then Some (3, 0xA0, 0xBF)
      else if 0xE1 \<le> b \<and> b \<le> 0xEC then Some (3, 0x80, 0xBF)
      else if b = 0xED then Some (3, 0x80, 0x9F)
      else if 0xEE \<le> b \<and> b \<le> 0xEF then Some (3, 0x80, 0xBF)
      else if b = 0xF0 then Some (4, 0x90, 0xBF)
      else if 0xF1 \<le> b \<and> b \<le> 0xF3 then Some (4, 0x80, 0xBF)
      else if b = 0xF4 then Some (4, 0x80, 0x8F)
      else None)"

definition DecodeRuneInString :: "string \<Rightarrow> nat \<times> nat" where
  "DecodeRuneInString s =
     (case s of
        [] \<Rightarrow> (RuneError, 0)
      | c0 # _ \<Rightarrow>
          let s0 = byte c0 in
          if s0 < RuneSelf then (s0, 1)
          else
            (case first s0 of
               None \<Rightarrow> (RuneError, 1)
             | Some (sz, lo, hi) \<Rightarrow>
                 if length s < sz then (RuneError, 1)
                 else
                   let s1 = byte (s ! 1) in
                   if s1 < lo \<or> hi < s1 then (RuneError, 1)
                   else if sz \<le> 2 then ((s0 mod 32) * 64 + s1 mod 64, 2)
                   else
                     let s2 = byte (s ! 2) in
                     if s2 < 0x80 \<or> 0xBF < s2 then (RuneError, 1)
                     else if sz \<le> 3 then
                       ((s0 mod 16) * 4096 + (s1 mod 64) * 64 + s2 mod 64, 3)
                     else
                       let s3 = byte (s ! 3) in
                       if s3 < 0x80 \<or> 0xBF < s3 then (RuneError, 1)
                       else
                         ((s0 mod 8) * 262144 + (s1 mod 64) * 4096 + (s2 mod 64) * 64
                            + s3 mod 64, 4)))"

text \<open>
  The runes of a string, as \<open>for _, r := range s\<close> yields them.
\<close>

function runes :: "string \<Rightarrow> nat list" where
  "runes s =
     (if s = [] then []
      else fst (DecodeRuneInString s) # runes (drop (snd (DecodeRuneInString s)) s))"
  by pat_completeness auto
termination
proof (relation "measure length")
  show "wf (measure length)" by simp
next
  fix s :: string
  assume "s \<noteq> []"
  then have "0 < snd (DecodeRuneInString s)"
    by (cases s)
      (auto simp: DecodeRuneInString_def Let_def split: option.splits prod.splits)
  with \<open>s \<noteq> []\<close> show "(drop (snd (DecodeRuneInString s)) s, s) \<in> measure length"
    by simp
qed

text \<open>
  \<open>unicode.SimpleFold\<close>: the next rune of the case-folding orbit of a rune, wrapping
  around to the smallest. The table \<open>asciiFold\<close> (all runes below 128) and the two
  \<open>caseOrbit\<close> entries whose orbit holds an ASCII letter (U+017F, long s, and U+212A, the
  Kelvin sign) are as in package \<open>unicode\<close>. The other runes are left in place: the tables
  for them are not reproduced, and \<open>EqualFold\<close> against an ASCII string asks for the fold
  of runes on the orbit of an ASCII rune only.
\<close>

definition SimpleFold :: "nat \<Rightarrow> nat" where
  "SimpleFold r =
     (if r = 0x4B then 0x6B
      else if r = 0x53 then 0x73
      else if r = 0x6B then 0x212A
      else if r = 0x73 then 0x17F
      else if r = 0x17F then 0x53
      else if r = 0x212A then 0x4B
      else if 0x41 \<le> r \<and> r \<le> 0x5A then r + 0x20
      else if 0x61 \<le> r \<and> r \<le> 0x7A then r - 0x20
      else r)"

text \<open>The step of \<open>strings.EqualFold\<close> that takes the first rune off a non-empty string.\<close>

definition next_rune :: "string \<Rightarrow> nat \<times> string" where
  "next_rune s =
     (if byte (hd s) < RuneSelf then (byte (hd s), tl s)
      else (fst (DecodeRuneInString s), drop (snd (DecodeRuneInString s)) s))"

text \<open>
  Whether two runes that differ are equal under simple case folding, as the body of the
  loop of \<open>strings.EqualFold\<close> decides it: the smaller rune first, an ASCII pair by the
  distance between the cases, any other pair by walking the orbit of the smaller rune.
\<close>

definition fold_match :: "nat \<Rightarrow> nat \<Rightarrow> bool" where
  "fold_match sr0 tr0 =
     (let sr = (if tr0 < sr0 then tr0 else sr0);
          tr = (if tr0 < sr0 then sr0 else tr0)
      in if tr < RuneSelf then 0x41 \<le> sr \<and> sr \<le> 0x5A \<and> tr = sr + 0x20
         else while (\<lambda>r. r \<noteq> sr \<and> r < tr) SimpleFold (SimpleFold sr) = tr)"

function EqualFold :: "string \<Rightarrow> string \<Rightarrow> bool" where
  "EqualFold s t =
     (if s \<noteq> [] \<and> t \<noteq> [] then
        (if fst (next_rune t) = fst (next_rune s) \<or> fold_match (fst (next_rune s)) (fst (next_rune t))
         then EqualFold (snd (next_rune s)) (snd (next_rune t))
         else False)
      else s = t)"
  by pat_completeness auto
termination
proof (relation "measure (\<lambda>(s, t). length s)")
  show "wf (measure (\<lambda>(s, t). length s))" by simp
next
  fix s t :: string
  assume "s \<noteq> [] \<and> t \<noteq> []"
  then have "length (snd (next_rune s)) < length s"
    by (cases s)
      (auto simp: next_rune_def DecodeRuneInString_def Let_def split: option.splits prod.splits)
  then show "((snd (next_rune s), snd (next_rune t)), (s, t)) \<in> measure (\<lambda>(s, t). length s)"
    by simp
qed

section \<open>URL parsing (net/url, as the tokenizer uses it)\<close>

text \<open>
  \<open>url.Parse\<close> of the Go release the module names (\<open>go 1.16\<close>). Of the parsed URL the
  tokenizer reads \<open>Host\<close> and \<open>Path\<close> only; the other fields (scheme, opaque part, user,
  query, fragment) steer the parse and are then dropped. \<open>between lo c hi\<close> is the byte
  test \<open>lo <= c && c <= hi\<close>.
\<close>

datatype url_error =
    InvalidControlCharacter
  | EmptyURL
  | MissingProtocolScheme
  | InvalidURIForRequest
  | FirstPathSegmentColon
  | EscapeError string
  | InvalidHostError string
  | MissingBracketInHost
  | InvalidPort string
  | InvalidUserinfo

datatype encoding =
    encodePath
  | encodePathSegment
  | encodeHost
  | encodeZone
  | encodeUserPassword
  | encodeQueryComponent
  | encodeFragment

record URL =
  Host :: string
  Path :: string

definition between :: "char \<Rightarrow> char \<Rightarrow> char \<Rightarrow> bool" where
  "between lo c hi = (lo \<le> c \<and> c \<le> hi)"

definition isalpha :: "char \<Rightarrow> bool" where
  "isalpha c = (between CHR ''a'' c CHR ''z'' \<or> between CHR ''A'' c CHR ''Z'')"

definition isdigit :: "char \<Rightarrow> bool" where
  "isdigit c = between CHR ''0'' c CHR ''9''"

definition ishex :: "char \<Rightarrow> bool" where
  "ishex c =
     (between CHR ''0'' c CHR ''9'' \<or> between CHR ''a'' c CHR ''f''
      \<or> between CHR ''A'' c CHR ''F'')"

definition unhex :: "char \<Rightarrow> nat" where
  "unhex c =
     (if between CHR ''0'' c CHR ''9'' then byte c - byte CHR ''0''
      else if between CHR ''a'' c CHR ''f'' then byte c - byte CHR ''a'' + 10
      else if between CHR ''A'' c CHR ''F'' then byte c - byte CHR ''A'' + 10
      else 0)"

text \<open>\<open>shouldEscape(c, encodeHost)\<close>, the one mode \<open>unescape\<close> asks it for.\<close>

definition shouldEscapeHost :: "char \<Rightarrow> bool" where
  "shouldEscapeHost c =
     (if isalpha c \<or> isdigit c then False
      else if c \<in> set ''!$&'' \<or> c = CHR 0x27 \<or> c \<in> set ''()*+,;=:[]<>'' \<or> c = CHR 0x22
        then False
      else if c \<in> set ''-_.~'' then False
      else True)"

text \<open>
  \<open>unescape\<close>: a first pass finds a malformed escape or a byte a host may not hold, a
  second pass decodes.
\<close>

fun unescape_check :: "encoding \<Rightarrow> string \<Rightarrow> url_error option" where
  "unescape_check mode [] = None"
| "unescape_check mode (c # cs) =
     (if c = CHR ''%'' then
        (if length cs < 2 \<or> \<not> ishex (cs ! 0) \<or> \<not> ishex (cs ! 1)
           then Some (EscapeError (take 3 (c # cs)))
         else if mode = encodeHost \<and> unhex (cs ! 0) < 8 \<and> take 3 (c # cs) \<noteq> ''%25''
           then Some (EscapeError (take 3 (c # cs)))
         else if mode = encodeZone \<and> take 3 (c # cs) \<noteq> ''%25''
              \<and> unhex (cs ! 0) * 16 + unhex (cs ! 1) \<noteq> byte CHR '' ''
              \<and> shouldEscapeHost (char_of (unhex (cs ! 0) * 16 + unhex (cs ! 1)))
           then Some (EscapeError (take 3 (c # cs)))
         else unescape_check mode (drop 2 cs))
      else if c = CHR ''+'' then unescape_check mode cs
      else if (mode = encodeHost \<or> mode = encodeZone) \<and> byte c < 0x80 \<and> shouldEscapeHost c
        then Some (InvalidHostError [c])
      else unescape_check mode cs)"

fun unescape_decode :: "encoding \<Rightarrow> string \<Rightarrow> string" where
  "unescape_decode mode [] = []"
| "unescape_decode mode (c # cs) =
     (if c = CHR ''%'' then
        char_of (unhex (cs ! 0) * 16 + unhex (cs ! 1)) # unescape_decode mode (drop 2 cs)
      else if c = CHR ''+'' then
        (if mode = encodeQueryComponent then CHR '' '' else CHR ''+'') # unescape_decode mode cs
      else c # unescape_decode mode cs)"

definition unescape :: "string \<Rightarrow> encoding \<Rightarrow> url_error + string" where
  "unescape s mode =
     (case unescape_check mode s of
        Some e \<Rightarrow> Inl e
      | None \<Rightarrow>
          if Count s CHR ''%'' = 0 \<and> \<not> (Contains s CHR ''+'' \<and> mode = encodeQueryComponent)
          then Inr s
          else Inr (unescape_decode mode s))"

text \<open>\<open>split(s, sep, cutc)\<close>: cut at the first separator, which \<open>cutc\<close> drops.\<close>

definition split :: "string \<Rightarrow> char \<Rightarrow> bool \<Rightarrow> string \<times> string" where
  "split s sep cutc =
     (case IndexByte s sep of
        None \<Rightarrow> (s, [])
      | Some i \<Rightarrow> if cutc then (take i s, drop (i + 1) s) else (take i s, drop i s))"

definition stringContainsCTLByte :: "string \<Rightarrow> bool" where
  "stringContainsCTLByte s = (\<exists>b \<in> set s. b < CHR '' '' \<or> b = CHR 0x7F)"

text \<open>\<open>getscheme\<close>: the loop over the bytes, \<open>i\<close> the index of the byte at hand.\<close>

fun getscheme_loop :: "string \<Rightarrow> nat \<Rightarrow> string \<Rightarrow> url_error + (string \<times> string)" where
  "getscheme_loop rawurl i [] = Inr ([], rawurl)"
| "getscheme_loop rawurl i (c # cs) =
     (if isalpha c then getscheme_loop rawurl (i + 1) cs
      else if isdigit c \<or> c = CHR ''+'' \<or> c = CHR ''-'' \<or> c = CHR ''.'' then
        (if i = 0 then Inr ([], rawurl) else getscheme_loop rawurl (i + 1) cs)
      else if c = CHR '':'' then
        (if i = 0 then Inl MissingProtocolScheme
         else Inr (take i rawurl, drop (i + 1) rawurl))
      else Inr ([], rawurl))"

definition getscheme :: "string \<Rightarrow> url_error + (string \<times> string)" where
  "getscheme rawurl = getscheme_loop rawurl 0 rawurl"

definition validOptionalPort :: "string \<Rightarrow> bool" where
  "validOptionalPort port =
     (case port of
        [] \<Rightarrow> True
      | c # ds \<Rightarrow> c = CHR '':'' \<and> (\<forall>b \<in> set ds. isdigit b))"

definition validUserinfo :: "string \<Rightarrow> bool" where
  "validUserinfo s =
     (\<forall>r \<in> set s. isalpha r \<or> isdigit r \<or> r \<in> set ''-._:~!$&'' \<or> r = CHR 0x27
        \<or> r \<in> set ''()*+,;=%@'')"

definition parseHost :: "string \<Rightarrow> url_error + string" where
  "parseHost host =
     (if HasPrefix host ''['' then
        (case LastIndexByte host CHR '']'' of
           None \<Rightarrow> Inl MissingBracketInHost
         | Some i \<Rightarrow>
             if \<not> validOptionalPort (drop (i + 1) host) then Inl (InvalidPort (drop (i + 1) host))
             else
               (case Index (take i host) ''%25'' of
                  Some zone \<Rightarrow>
                    (case unescape (take zone host) encodeHost of
                       Inl e \<Rightarrow> Inl e
                     | Inr host1 \<Rightarrow>
                         (case unescape (drop zone (take i host)) encodeZone of
                            Inl e \<Rightarrow> Inl e
                          | Inr host2 \<Rightarrow>
                              (case unescape (drop i host) encodeHost of
                                 Inl e \<Rightarrow> Inl e
                               | Inr host3 \<Rightarrow> Inr (host1 @ host2 @ host3))))
                | None \<Rightarrow> unescape host encodeHost))
      else
        (case LastIndexByte host CHR '':'' of
           Some i \<Rightarrow>
             if \<not> validOptionalPort (drop i host) then Inl (InvalidPort (drop i host))
             else unescape host encodeHost
         | None \<Rightarrow> unescape host encodeHost))"

text \<open>\<open>parseAuthority\<close>, of which the host is kept (the user information is checked only).\<close>

definition parseAuthority :: "string \<Rightarrow> url_error + string" where
  "parseAuthority authority =
     (let i = LastIndexByte authority CHR ''@'' in
      case (case i of None \<Rightarrow> parseHost authority
                    | Some j \<Rightarrow> parseHost (drop (j + 1) authority)) of
        Inl e \<Rightarrow> Inl e
      | Inr host \<Rightarrow>
          (case i of
             None \<Rightarrow> Inr host
           | Some j \<Rightarrow>
               let userinfo = take j authority in
               if \<not> validUserinfo userinfo then Inl InvalidUserinfo
               else if \<not> Contains userinfo CHR '':'' then
                 (case unescape userinfo encodeUserPassword of
                    Inl e \<Rightarrow> Inl e
                  | Inr _ \<Rightarrow> Inr host)
               else
                 (case unescape (fst (split userinfo CHR '':'' True)) encodeUserPassword of
                    Inl e \<Rightarrow> Inl e
                  | Inr _ \<Rightarrow>
                      (case unescape (snd (split userinfo CHR '':'' True)) encodeUserPassword of
                         Inl e \<Rightarrow> Inl e
                       | Inr _ \<Rightarrow> Inr host))))"

definition setPath :: "string \<Rightarrow> string \<Rightarrow> url_error + URL" where
  "setPath h p =
     (case unescape p encodePath of
        Inl e \<Rightarrow> Inl e
      | Inr p' \<Rightarrow> Inr \<lparr>Host = h, Path = p'\<rparr>)"

definition parse :: "string \<Rightarrow> bool \<Rightarrow> url_error + URL" where
  "parse rawurl viaRequest =
     (if stringContainsCTLByte rawurl then Inl InvalidControlCharacter
      else if rawurl = [] \<and> viaRequest then Inl EmptyURL
      else if rawurl = ''*'' then Inr \<lparr>Host = [], Path = ''*''\<rparr>
      else
        (case getscheme rawurl of
           Inl e \<Rightarrow> Inl e
         | Inr (scheme, rest0) \<Rightarrow>
             let rest =
                   (if HasSuffix rest0 ''?'' \<and> Count rest0 CHR ''?'' = 1
                    then take (length rest0 - 1) rest0
                    else fst (split rest0 CHR ''?'' True))
             in
             if \<not> HasPrefix rest ''/'' \<and> scheme \<noteq> [] then Inr \<lparr>Host = [], Path = []\<rparr>
             else if \<not> HasPrefix rest ''/'' \<and> viaRequest then Inl InvalidURIForRequest
             else if \<not> HasPrefix rest ''/''
                  \<and> (case IndexByte rest CHR '':'' of
                        None \<Rightarrow> False
                      | Some colon \<Rightarrow>
                          (case IndexByte rest CHR ''/'' of
                             None \<Rightarrow> True
                           | Some slash \<Rightarrow> colon < slash))
               then Inl FirstPathSegmentColon
             else if (scheme \<noteq> [] \<or> \<not> viaRequest \<and> \<not> HasPrefix rest ''///'')
                     \<and> HasPrefix rest ''//''
               then
                 (case parseAuthority (fst (split (drop 2 rest) CHR ''/'' False)) of
                    Inl e \<Rightarrow> Inl e
                  | Inr h \<Rightarrow> setPath h (snd (split (drop 2 rest) CHR ''/'' False)))
             else setPath [] rest))"

definition Parse :: "string \<Rightarrow> url_error + URL" where
  "Parse rawurl =
     (let u = fst (split rawurl CHR ''#'' True);
          frag = snd (split rawurl CHR ''#'' True)
      in case parse u False of
           Inl e \<Rightarrow> Inl e
         | Inr url \<Rightarrow>
             if frag = [] then Inr url
             else
               (case unescape frag encodeFragment of
                  Inl e \<Rightarrow> Inl e
                | Inr _ \<Rightarrow> Inr url))"

section \<open>The path tokenizer (router/index.go)\<close>

text \<open>
  A panic is a value: the three error variables of the package, the error \<open>url.Parse\<close>
  returned, or the string \<open>HandleFunc\<close> panics with.
\<close>

datatype panic =
    ErrMethodNotAllowed
  | ErrBadPath
  | ErrNilHandler
  | UrlError url_error
  | PanicString string

text \<open>
  \<open>isValidMethod\<close> ranges over the six verbs and returns at the first one that
  \<open>EqualFold\<close> accepts.
\<close>

definition methods :: "string list" where
  "methods = [''GET'', ''POST'', ''PUT'', ''DELETE'', ''HEAD'', ''OPTIONS'']"

fun isValidMethod_loop :: "string list \<Rightarrow> string \<Rightarrow> bool" where
  "isValidMethod_loop [] method = False"
| "isValidMethod_loop (m # ms) method =
     (if EqualFold m method then True else isValidMethod_loop ms method)"

definition isValidMethod :: "string \<Rightarrow> bool" where
  "isValidMethod method = isValidMethod_loop methods method"

text \<open>
  \<open>tokenize\<close> returns the method, the host and the path, or panics. The two indexings
  \<open>paths[0]\<close> and \<open>paths[1]\<close> are in range: the length was just checked to be 2.
\<close>

definition tokenize :: "string \<Rightarrow> panic + (string \<times> string \<times> string)" where
  "tokenize path =
     (let paths = Split path CHR '':'' in
      if length paths \<noteq> 2 then Inl ErrBadPath
      else
        let pathMethod = paths ! 0 in
        if \<not> isValidMethod pathMethod then Inl ErrMethodNotAllowed
        else
          let pathUrl = paths ! 1;
              pathUrl = TrimPrefix pathUrl ''/'';
              pathUrl = TrimSuffix pathUrl ''/'';
              pathUrl = (if pathUrl = [] then ''/'' else pathUrl)
          in case Parse pathUrl of
               Inl err \<Rightarrow> Inl (UrlError err)
             | Inr u \<Rightarrow> Inr (pathMethod, Host u, Path u))"

text \<open>
  The same function with the program state written out. The state a call could read or
  change is the three error variables of the package (\<open>var ( ... )\<close> in index.go, each
  assigned from \<open>errors.New\<close>) and, as the extension of the record, whatever else the
  program holds: the routers, the server. \<open>tokenize\<close> reads \<open>ErrBadPath\<close> and
  \<open>ErrMethodNotAllowed\<close> when it panics and assigns to nothing; \<open>tokenize_run\<close> returns
  what the call raises or returns, and the state after it.
\<close>

datatype go_error = errorString string

record Package =
  varErrMethodNotAllowed :: go_error
  varErrBadPath :: go_error
  varErrNilHandler :: go_error

datatype raised =
    PanicError go_error
  | PanicUrlError url_error

definition tokenize_run ::
  "'z Package_scheme \<Rightarrow> string
     \<Rightarrow> (raised + (string \<times> string \<times> string)) \<times> 'z Package_scheme" where
  "tokenize_run \<sigma> path =
     (let paths = Split path CHR '':'' in
      if length paths \<noteq> 2 then (Inl (PanicError (varErrBadPath \<sigma>)), \<sigma>)
      else
        let pathMethod = paths ! 0 in
        if \<not> isValidMethod pathMethod then (Inl (PanicError (varErrMethodNotAllowed \<sigma>)), \<sigma>)
        else
          let pathUrl = paths ! 1;
              pathUrl = TrimPrefix pathUrl ''/'';
              pathUrl = TrimSuffix pathUrl ''/'';
              pathUrl = (if pathUrl = [] then ''/'' else pathUrl)
          in case Parse pathUrl of
               Inl err \<Rightarrow> (Inl (PanicUrlError err), \<sigma>)
             | Inr u \<Rightarrow> (Inr (pathMethod, Host u, Path u), \<sigma>))"

section \<open>The route registry (router/router.go)\<close>

text \<open>
  A route is the struct \<open>Route\<close>; its field \<open>method\<close> is written \<open>method'\<close>.
  A handler is a value of the interface \<open>http.Handler\<close>: a handler of the caller's
  (\<open>'h\<close>), a function converted by \<open>http.HandlerFunc\<close> (\<open>'f\<close>), or the handler that
  \<open>http.NotFoundHandler()\<close> returns. A nil interface value is \<open>None\<close>.
\<close>

datatype ('h, 'f) Handler =
    Handler 'h
  | HandlerFunc 'f
  | NotFoundHandler

record ('h, 'f) Route =
  method' :: string
  host :: string
  path :: string
  handler :: "('h, 'f) Handler option"

text \<open>
  The router holds the routes in registration order. Its mutex is taken at the start of
  \<open>Handle\<close> and released on every way out of it (the deferred \<open>Unlock\<close>), so a sequential
  model has no use for it.
\<close>

record ('h, 'f) Router =
  routes :: "('h, 'f) Route list"

definition New :: "('h, 'f) Router" where
  "New = \<lparr>routes = []\<rparr>"

text \<open>
  \<open>Handle\<close> and \<open>HandleFunc\<close> return the panic they raise, if any, and the router as the
  call leaves it.
\<close>

definition Handle ::
  "('h, 'f) Router \<Rightarrow> string \<Rightarrow> ('h, 'f) Handler option \<Rightarrow> panic option \<times> ('h, 'f) Router" where
  "Handle r p h =
     (if h = None then (Some ErrNilHandler, r)
      else
        (case tokenize p of
           Inl e \<Rightarrow> (Some e, r)
         | Inr (m, hst, pth) \<Rightarrow>
             (None,
              r\<lparr>routes := routes r @ [\<lparr>method' = m, host = hst, path = pth, handler = h\<rparr>]\<rparr>)))"

definition HandleFunc ::
  "('h, 'f) Router \<Rightarrow> string \<Rightarrow> 'f option \<Rightarrow> panic option \<times> ('h, 'f) Router" where
  "HandleFunc r p f =
     (case f of
        None \<Rightarrow> (Some (PanicString ''router: nill handler provided''), r)
      | Some g \<Rightarrow> Handle r p (Some (HandlerFunc g)))"

record Request =
  Method :: string
  URL :: URL

text \<open>
  The scan of \<open>match\<close>: the handler of the first route equal to the request in method,
  host and path, where the loop breaks; nil when the loop runs out. (The loop also prints
  each route it visits, which is left out.)
\<close>

fun match_loop ::
  "('h, 'f) Route list \<Rightarrow> string \<Rightarrow> string \<Rightarrow> string \<Rightarrow> ('h, 'f) Handler option" where
  "match_loop [] m hst pth = None"
| "match_loop (route # rest) m hst pth =
     (if method' route = m \<and> host route = hst \<and> path route = pth then handler route
      else match_loop rest m hst pth)"

definition match :: "('h, 'f) Router \<Rightarrow> Request \<Rightarrow> panic + ('h, 'f) Handler" where
  "match r rr =
     (case tokenize (Method rr @ '':'' @ Path (URL rr)) of
        Inl e \<Rightarrow> Inl e
      | Inr (m, hst, pth) \<Rightarrow>
          (case match_loop (routes r) m hst pth of
             None \<Rightarrow> Inr NotFoundHandler
           | Some h \<Rightarrow> Inr h))"

text \<open>
  \<open>ServeHTTP\<close> calls the handler that \<open>match\<close> returns; \<open>serve\<close> stands for the
  \<open>ServeHTTP\<close> methods of the handlers.
\<close>

definition ServeHTTP ::
  "(('h, 'f) Handler \<Rightarrow> Request \<Rightarrow> 'w) \<Rightarrow> ('h, 'f) Router \<Rightarrow> Request \<Rightarrow> panic + 'w" where
  "ServeHTTP serve r rr =
     (case match r rr of
        Inl e \<Rightarrow> Inl e
      | Inr h \<Rightarrow> Inr (serve h rr))"


section \<open>Notions used in the statements\<close>

text \<open>
  Case-insensitive match, in the spec's words, is equality under Unicode simple case
  folding: two strings match when they hold the same number of runes and the runes at
  each position lie on one folding orbit. \<open>fold_class\<close> names the orbits that hold an ASCII
  letter by their upper-case letter (the orbit of \<open>S\<close> holds the long s, that of \<open>K\<close> the
  Kelvin sign); every other rune is alone for the purpose of matching an ASCII string.
\<close>

definition fold_class :: "nat \<Rightarrow> nat" where
  "fold_class r =
     (if 0x61 \<le> r \<and> r \<le> 0x7A then r - 0x20
      else if r = 0x17F then 0x53
      else if r = 0x212A then 0x4B
      else r)"

definition fold_equal :: "string \<Rightarrow> string \<Rightarrow> bool" where
  "fold_equal s t = (map fold_class (runes s) = map fold_class (runes t))"

text \<open>The upper-case form of an ASCII letter; every other byte stays.\<close>

definition upper :: "char \<Rightarrow> char" where
  "upper c = (if CHR ''a'' \<le> c \<and> c \<le> CHR ''z'' then char_of (byte c - 0x20) else c)"

text \<open>
  The URL part of a path-spec as \<open>tokenize\<close> hands it to \<open>url.Parse\<close>: one leading and
  one trailing slash removed, and \<open>/\<close> when nothing is left.
\<close>

definition trimmed :: "string \<Rightarrow> string" where
  "trimmed u =
     (let pathUrl = TrimSuffix (TrimPrefix u ''/'') ''/''
      in if pathUrl = [] then ''/'' else pathUrl)"


text \<open>
  A URL part is plain when it holds no query, fragment or escape and neither begins nor
  ends with two slashes; a path is bare when it is the root \<open>/\<close> or is not empty and has a
  slash at neither end. \<open>registered\<close> holds of the routers reached from the empty one by
  calls of \<open>Handle\<close> and \<open>HandleFunc\<close> (failed or not) whose URL part is plain.
\<close>

definition plain_url :: "string \<Rightarrow> bool" where
  "plain_url u =
     (CHR ''?'' \<notin> set u \<and> CHR ''#'' \<notin> set u \<and> CHR ''%'' \<notin> set u
      \<and> \<not> prefix ''//'' u \<and> \<not> suffix ''//'' u)"

definition bare_path :: "string \<Rightarrow> bool" where
  "bare_path p = (p = ''/'' \<or> (p \<noteq> [] \<and> hd p \<noteq> CHR ''/'' \<and> last p \<noteq> CHR ''/''))"

inductive registered :: "('h, 'f) Router \<Rightarrow> bool" where
  registered_New: "registered New"
| registered_Handle:
    "registered r \<Longrightarrow> plain_url u \<Longrightarrow> Handle r (m @ '':'' @ u) h = (e, r') \<Longrightarrow> registered r'"
| registered_HandleFunc:
    "registered r \<Longrightarrow> plain_url u \<Longrightarrow> HandleFunc r (m @ '':'' @ u) f = (e, r')
       \<Longrightarrow> registered r'"

section \<open>Splitting at the separator\<close>

declare Split.simps [simp del] runes.simps [simp del] EqualFold.simps [simp del]

lemma IndexByte_None_iff: "IndexByte s c = None \<longleftrightarrow> c \<notin> set s"
  by (induction s) auto

lemma IndexByte_Some_D:
  "IndexByte s c = Some m \<Longrightarrow> s = take m s @ c # drop (Suc m) s \<and> c \<notin> set (take m s)"
  by (induction s arbitrary: m) (auto split: if_splits)

lemma IndexByte_append_first:
  "c \<notin> set a \<Longrightarrow> IndexByte (a @ c # b) c = Some (length a)"
  by (induction a) auto

lemma count_list_0_notin: "count_list xs x = 0 \<longleftrightarrow> x \<notin> set xs"
  by (simp add: count_list_0_iff)

lemma length_Split: "length (Split s c) = Suc (count_list s c)"
proof (induction s c rule: Split.induct)
  case (1 s sep)
  show ?case
  proof (cases "IndexByte s sep")
    case None
    then have "sep \<notin> set s" by (simp add: IndexByte_None_iff)
    then have "count_list s sep = 0" by (simp add: count_list_0_iff)
    with None show ?thesis by (simp add: Split.simps [of s])
  next
    case (Some m)
    from IndexByte_Some_D [OF Some]
    have s: "s = take m s @ sep # drop (Suc m) s" and n: "sep \<notin> set (take m s)" by blast+
    have "count_list s sep = count_list (take m s @ sep # drop (Suc m) s) sep"
      using s by simp
    also have "\<dots> = Suc (count_list (drop (Suc m) s) sep)"
      using n by (simp add: count_list_0_iff)
    finally show ?thesis
      using Some "1.IH" [OF Some] by (simp add: Split.simps [of s])
  qed
qed

lemma Split_no_sep: "c \<notin> set s \<Longrightarrow> Split s c = [s]"
  by (simp add: Split.simps [of s] IndexByte_None_iff [THEN iffD2])

lemma Split_two: "c \<notin> set a \<Longrightarrow> c \<notin> set b \<Longrightarrow> Split (a @ c # b) c = [a, b]"
  by (simp add: Split.simps [of "a @ c # b"] IndexByte_append_first Split_no_sep)

text \<open>
  What a successful \<open>tokenize\<close> says about its input: one separator, a valid method
  returned as it stands, and host and path read off the parse of the trimmed URL part.
\<close>

lemma tokenize_Inr_D:
  assumes "tokenize (m @ '':'' @ u) = Inr (m', h, p)"
  shows "m' = m \<and> CHR '':'' \<notin> set m \<and> CHR '':'' \<notin> set u \<and> isValidMethod m
         \<and> Parse (trimmed u) = Inr \<lparr>Host = h, Path = p\<rparr>"
proof -
  from assms have len: "length (Split (m @ '':'' @ u) CHR '':'') = 2"
    by (auto simp: tokenize_def Let_def split: if_splits)
  then have "count_list m CHR '':'' + count_list u CHR '':'' = 0"
    by (simp add: length_Split)
  then have nm: "CHR '':'' \<notin> set m" and nu: "CHR '':'' \<notin> set u"
    by (simp_all add: count_list_0_notin)
  have sp: "Split (m @ CHR '':'' # u) CHR '':'' = [m, u]"
    by (rule Split_two [OF nm nu])
  from assms show ?thesis
    using nm nu
    by (auto simp: tokenize_def sp trimmed_def Let_def split: if_splits sum.splits)
qed

lemma tokenize_MNA:
  assumes "CHR '':'' \<notin> set m" "CHR '':'' \<notin> set u"
  shows "(tokenize (m @ '':'' @ u) = Inl ErrMethodNotAllowed) = (\<not> isValidMethod m)"
proof -
  have sp: "Split (m @ CHR '':'' # u) CHR '':'' = [m, u]"
    by (rule Split_two [OF assms])
  show ?thesis
    by (auto simp: tokenize_def sp Let_def split: if_splits sum.splits)
qed

text \<open>
  C6. \<open>tokenize\<close> fails with \<open>ErrBadPath\<close> exactly when the input does not hold exactly
  one \<open>:\<close>, that is when splitting at \<open>:\<close> does not give two segments (the split gives
  one segment more than there are separators).
\<close>

theorem tokenize_BadPath_iff:
  "(tokenize raw = Inl ErrBadPath) = (Count raw CHR '':'' \<noteq> 1)
   \<and> length (Split raw CHR '':'') = Count raw CHR '':'' + 1"
  by (auto simp: tokenize_def Let_def length_Split Count_def split: sum.splits)

theorem tokenize_BadPath_iff_witness:
  "tokenize ''GET:/x:y'' = Inl ErrBadPath \<and> tokenize ''GET:/x'' \<noteq> Inl ErrBadPath"
  using tokenize_BadPath_iff [of "''GET:/x:y''"] tokenize_BadPath_iff [of "''GET:/x''"]
  by (simp add: Count_def)

section \<open>The method check\<close>

text \<open>
  The loop of \<open>EqualFold\<close> that walks the folding orbit of the smaller rune stops: the
  orbit of an ASCII rune has at most three runes, and the walk comes back to where it
  started.
\<close>

lemma while_stop: "\<not> b s \<Longrightarrow> while b c s = s"
  by (subst while_unfold) simp

lemma while_step: "b s \<Longrightarrow> while b c s = while b c (c s)"
  by (subst while_unfold) simp

lemma SimpleFold_K [simp]:
  "SimpleFold 0x4B = 0x6B" "SimpleFold 0x6B = 0x212A" "SimpleFold 0x212A = 0x4B"
  by (simp_all add: SimpleFold_def)

lemma SimpleFold_S [simp]:
  "SimpleFold 0x53 = 0x73" "SimpleFold 0x73 = 0x17F" "SimpleFold 0x17F = 0x53"
  by (simp_all add: SimpleFold_def)

lemma SimpleFold_other:
  "r < 0x41 \<or> 0x5A < r \<and> r < 0x61 \<or> 0x7A < r \<and> r < 0x80 \<Longrightarrow> SimpleFold r = r"
  by (auto simp add: SimpleFold_def)

lemma SimpleFold_orbit:
  "SimpleFold r = r \<or> SimpleFold (SimpleFold r) = r
   \<or> SimpleFold (SimpleFold (SimpleFold r)) = r"
proof -
  consider "r = 0x4B" | "r = 0x53" | "r = 0x6B" | "r = 0x73" | "r = 0x17F" | "r = 0x212A"
    | "0x41 \<le> r" "r \<le> 0x5A" "r \<noteq> 0x4B" "r \<noteq> 0x53"
    | "0x61 \<le> r" "r \<le> 0x7A" "r \<noteq> 0x6B" "r \<noteq> 0x73"
    | "r < 0x41 \<or> 0x5A < r \<and> r < 0x61 \<or> 0x7A < r \<and> r \<noteq> 0x17F \<and> r \<noteq> 0x212A"
    by linarith
  then show ?thesis
  proof cases
    case 7
    then have "SimpleFold r = r + 0x20" "SimpleFold (r + 0x20) = r"
      by (simp_all add: SimpleFold_def)
    then show ?thesis by simp
  next
    case 8
    then have "SimpleFold r = r - 0x20" "SimpleFold (r - 0x20) = r"
      by (auto simp add: SimpleFold_def)
    then show ?thesis by simp
  next
    case 9
    then have "SimpleFold r = r"
      by (auto simp add: SimpleFold_def)
    then show ?thesis by simp
  qed simp_all
qed

lemma fold_walk_stops:
  "\<exists>r. while_option (\<lambda>r. r \<noteq> sr \<and> r < tr) SimpleFold (SimpleFold sr) = Some r"
proof -
  let ?b = "\<lambda>r. r \<noteq> sr \<and> r < tr"
  from SimpleFold_orbit [of sr]
  have "\<exists>k. \<not> ?b ((SimpleFold ^^ k) (SimpleFold sr))"
  proof (elim disjE)
    assume "SimpleFold sr = sr"
    then have "\<not> ?b ((SimpleFold ^^ 0) (SimpleFold sr))" by simp
    then show ?thesis by blast
  next
    assume "SimpleFold (SimpleFold sr) = sr"
    then have "\<not> ?b ((SimpleFold ^^ 1) (SimpleFold sr))" by simp
    then show ?thesis by blast
  next
    assume "SimpleFold (SimpleFold (SimpleFold sr)) = sr"
    then have "\<not> ?b ((SimpleFold ^^ 2) (SimpleFold sr))" by (simp add: numeral_2_eq_2)
    then show ?thesis by blast
  qed
  then show ?thesis
    by (simp add: while_option_def)
qed

text \<open>What the walk ends on, for an orbit of three runes and for one of two.\<close>

lemma walk3:
  assumes "c1 \<noteq> sr" "c1 < tr" "SimpleFold c1 = c2" "c2 \<noteq> sr" "SimpleFold c2 = sr"
  shows "while (\<lambda>r. r \<noteq> sr \<and> r < tr) SimpleFold c1 = (if c2 < tr then sr else c2)"
proof -
  have "while (\<lambda>r. r \<noteq> sr \<and> r < tr) SimpleFold c1
      = while (\<lambda>r. r \<noteq> sr \<and> r < tr) SimpleFold c2"
    using assms by (subst while_step) auto
  also have "\<dots> = (if c2 < tr then sr else c2)"
  proof (cases "c2 < tr")
    case True
    then have "while (\<lambda>r. r \<noteq> sr \<and> r < tr) SimpleFold c2
        = while (\<lambda>r. r \<noteq> sr \<and> r < tr) SimpleFold sr"
      using assms by (subst while_step) auto
    then show ?thesis using True by (simp add: while_stop)
  next
    case False
    then show ?thesis by (simp add: while_stop)
  qed
  finally show ?thesis .
qed

lemma walk2:
  assumes "c1 \<noteq> sr" "SimpleFold c1 = sr"
  shows "while (\<lambda>r. r \<noteq> sr \<and> r < tr) SimpleFold c1 = (if c1 < tr then sr else c1)"
proof (cases "c1 < tr")
  case True
  then have "while (\<lambda>r. r \<noteq> sr \<and> r < tr) SimpleFold c1
      = while (\<lambda>r. r \<noteq> sr \<and> r < tr) SimpleFold sr"
    using assms by (subst while_step) auto
  then show ?thesis using True by (simp add: while_stop)
next
  case False
  then show ?thesis by (simp add: while_stop)
qed

lemma walk_ascii:
  assumes "sr < 128" "128 \<le> tr"
  shows "(while (\<lambda>r. r \<noteq> sr \<and> r < tr) SimpleFold (SimpleFold sr) = tr)
       = (tr = 0x17F \<and> (sr = 0x53 \<or> sr = 0x73) \<or> tr = 0x212A \<and> (sr = 0x4B \<or> sr = 0x6B))"
proof -
  consider "sr = 0x4B" | "sr = 0x53" | "sr = 0x6B" | "sr = 0x73"
    | "0x41 \<le> sr" "sr \<le> 0x5A" "sr \<noteq> 0x4B" "sr \<noteq> 0x53"
    | "0x61 \<le> sr" "sr \<le> 0x7A" "sr \<noteq> 0x6B" "sr \<noteq> 0x73"
    | "sr < 0x41 \<or> 0x5A < sr \<and> sr < 0x61 \<or> 0x7A < sr \<and> sr < 0x80"
    using assms(1) by linarith
  then show ?thesis
  proof cases
    case 1
    have "while (\<lambda>r. r \<noteq> sr \<and> r < tr) SimpleFold 0x6B
        = (if 0x212A < tr then sr else 0x212A)"
      using 1 assms by (intro walk3) simp_all
    with 1 assms show ?thesis by auto
  next
    case 2
    have "while (\<lambda>r. r \<noteq> sr \<and> r < tr) SimpleFold 0x73
        = (if 0x17F < tr then sr else 0x17F)"
      using 2 assms by (intro walk3) simp_all
    with 2 assms show ?thesis by auto
  next
    case 3
    have "while (\<lambda>r. r \<noteq> sr \<and> r < tr) SimpleFold 0x212A
        = (if 0x212A < tr then (if 0x4B < tr then sr else 0x4B) else 0x212A)"
    proof (cases "0x212A < tr")
      case True
      have "while (\<lambda>r. r \<noteq> sr \<and> r < tr) SimpleFold 0x212A
          = while (\<lambda>r. r \<noteq> sr \<and> r < tr) SimpleFold 0x4B"
        using 3 True by (subst while_step) auto
      also have "\<dots> = (if 0x4B < tr then sr else 0x4B)"
        using 3 by (intro walk2) simp_all
      finally show ?thesis using True by simp
    next
      case False
      then show ?thesis by (simp add: while_stop)
    qed
    with 3 assms show ?thesis by auto
  next
    case 4
    have "while (\<lambda>r. r \<noteq> sr \<and> r < tr) SimpleFold 0x17F
        = (if 0x17F < tr then (if 0x53 < tr then sr else 0x53) else 0x17F)"
    proof (cases "0x17F < tr")
      case True
      have "while (\<lambda>r. r \<noteq> sr \<and> r < tr) SimpleFold 0x17F
          = while (\<lambda>r. r \<noteq> sr \<and> r < tr) SimpleFold 0x53"
        using 4 True by (subst while_step) auto
      also have "\<dots> = (if 0x53 < tr then sr else 0x53)"
        using 4 by (intro walk2) simp_all
      finally show ?thesis using True by simp
    next
      case False
      then show ?thesis by (simp add: while_stop)
    qed
    with 4 assms show ?thesis by auto
  next
    case 5
    then have f: "SimpleFold sr = sr + 0x20" "SimpleFold (sr + 0x20) = sr"
      by (simp_all add: SimpleFold_def)
    have "while (\<lambda>r. r \<noteq> sr \<and> r < tr) SimpleFold (sr + 0x20)
        = (if sr + 0x20 < tr then sr else sr + 0x20)"
      using f by (intro walk2) simp_all
    with 5 f assms show ?thesis by auto
  next
    case 6
    then have f: "SimpleFold sr = sr - 0x20" "SimpleFold (sr - 0x20) = sr"
      by (auto simp add: SimpleFold_def)
    have "while (\<lambda>r. r \<noteq> sr \<and> r < tr) SimpleFold (sr - 0x20)
        = (if sr - 0x20 < tr then sr else sr - 0x20)"
      using f 6 by (intro walk2) simp_all
    with 6 f assms show ?thesis by auto
  next
    case 7
    then have "SimpleFold sr = sr" by (rule SimpleFold_other)
    with 7 assms show ?thesis by (auto simp: while_stop)
  qed
qed

lemma fold_match_ascii:
  assumes "sr < 128"
  shows "(tr = sr \<or> fold_match sr tr) = (fold_class sr = fold_class tr)"
proof (cases "tr < 128")
  case True
  with assms show ?thesis
    by (auto simp: fold_match_def fold_class_def RuneSelf_def Let_def)
next
  case False
  then have tr: "128 \<le> tr" by simp
  with assms have "fold_match sr tr =
      (while (\<lambda>r. r \<noteq> sr \<and> r < tr) SimpleFold (SimpleFold sr) = tr)"
    by (simp add: fold_match_def RuneSelf_def Let_def)
  also have "\<dots> = (tr = 0x17F \<and> (sr = 0x53 \<or> sr = 0x73)
                    \<or> tr = 0x212A \<and> (sr = 0x4B \<or> sr = 0x6B))"
    by (rule walk_ascii [OF assms tr])
  also have "\<dots> = (fold_class sr = fold_class tr)"
    using assms tr by (auto simp: fold_class_def)
  finally show ?thesis using assms tr by auto
qed

lemma runes_Nil [simp]: "runes [] = []"
  by (simp add: runes.simps)

lemma runes_eq_Nil [simp]: "runes s = [] \<longleftrightarrow> s = []"
  by (subst runes.simps) simp

lemma runes_next_rune:
  "t \<noteq> [] \<Longrightarrow> runes t = fst (next_rune t) # runes (snd (next_rune t))"
  by (subst runes.simps, cases t)
     (auto simp: next_rune_def DecodeRuneInString_def Let_def)

lemma next_rune_ascii: "byte c < 128 \<Longrightarrow> next_rune (c # cs) = (byte c, cs)"
  by (simp add: next_rune_def RuneSelf_def)

lemma runes_ascii_Cons: "byte c < 128 \<Longrightarrow> runes (c # cs) = byte c # runes cs"
  using runes_next_rune [of "c # cs"] by (simp add: next_rune_ascii)

lemma runes_ascii: "\<forall>c \<in> set s. byte c < 128 \<Longrightarrow> runes s = map byte s"
  by (induction s) (simp_all add: runes_ascii_Cons)

text \<open>
  Against an ASCII string, the loop of \<open>EqualFold\<close> decides equality under simple case
  folding.
\<close>

lemma EqualFold_ascii:
  "\<forall>c \<in> set v. byte c < 128 \<Longrightarrow> EqualFold v t = fold_equal v t"
proof (induction v arbitrary: t)
  case Nil
  show ?case
    by (subst EqualFold.simps) (auto simp: fold_equal_def)
next
  case (Cons c v)
  then have c: "byte c < 128" and v: "\<forall>c \<in> set v. byte c < 128" by simp_all
  show ?case
  proof (cases "t = []")
    case True
    then show ?thesis
      by (subst EqualFold.simps) (simp add: fold_equal_def runes_ascii_Cons [OF c])
  next
    case False
    have "EqualFold (c # v) t =
        ((fst (next_rune t) = byte c \<or> fold_match (byte c) (fst (next_rune t)))
          \<and> EqualFold v (snd (next_rune t)))"
      using False by (subst EqualFold.simps) (simp add: next_rune_ascii [OF c])
    also have "\<dots> = (fold_class (byte c) = fold_class (fst (next_rune t))
          \<and> fold_equal v (snd (next_rune t)))"
      by (simp only: fold_match_ascii [OF c] Cons.IH [OF v])
    also have "\<dots> = fold_equal (c # v) t"
      by (simp add: fold_equal_def runes_ascii_Cons [OF c] runes_next_rune [OF False])
    finally show ?thesis .
  qed
qed

lemma methods_ascii: "v \<in> set methods \<Longrightarrow> \<forall>c \<in> set v. byte c < 128"
  by (auto simp: methods_def byte_def)

lemma isValidMethod_loop_iff: "isValidMethod_loop ms m \<longleftrightarrow> (\<exists>v \<in> set ms. EqualFold v m)"
  by (induction ms) auto

lemma isValidMethod_iff: "isValidMethod m \<longleftrightarrow> (\<exists>v \<in> set methods. fold_equal v m)"
  using EqualFold_ascii [OF methods_ascii]
  by (auto simp: isValidMethod_def isValidMethod_loop_iff)

lemma byte_upper_lower:
  "CHR ''a'' \<le> c \<Longrightarrow> c \<le> CHR ''z'' \<Longrightarrow> byte (char_of (byte c - 0x20)) = byte c - 0x20"
  by (simp add: byte_def less_eq_char_def)

lemma fold_class_upper:
  assumes "byte c < 128"
  shows "fold_class (byte (upper c)) = fold_class (byte c)"
proof (cases "CHR ''a'' \<le> c \<and> c \<le> CHR ''z''")
  case True
  then have "97 \<le> byte c" "byte c \<le> 122"
    by (simp_all add: byte_def less_eq_char_def)
  with True show ?thesis
    by (auto simp add: upper_def byte_upper_lower fold_class_def)
next
  case False
  then show ?thesis by (auto simp add: upper_def)
qed

lemma upper_ascii: "byte (upper c) < 128 \<Longrightarrow> byte c < 128"
  by (auto simp: upper_def byte_def less_eq_char_def split: if_splits)

lemma fold_equal_upper:
  assumes "\<forall>c \<in> set m. byte c < 128"
  shows "fold_equal (map upper m) m"
proof -
  have u: "\<forall>c \<in> set (map upper m). byte c < 128"
    using assms by (auto simp: upper_def byte_upper_lower)
  have "map fold_class (map byte (map upper m)) = map fold_class (map byte m)"
    using assms by (simp add: fold_class_upper)
  then show ?thesis
    by (simp add: fold_equal_def runes_ascii [OF assms] runes_ascii [OF u])
qed

lemma case_variant_valid:
  assumes "map upper m \<in> set methods"
  shows "isValidMethod m"
proof -
  from methods_ascii [OF assms] have "\<forall>c \<in> set m. byte (upper c) < 128" by simp
  then have "\<forall>c \<in> set m. byte c < 128" by (blast intro: upper_ascii)
  then have "fold_equal (map upper m) m" by (rule fold_equal_upper)
  with assms show ?thesis by (auto simp: isValidMethod_iff)
qed

text \<open>
  C7. For an input with exactly one separator, \<open>m:u\<close>, \<open>tokenize\<close> fails with
  \<open>ErrMethodNotAllowed\<close> if and only if the method segment \<open>m\<close> is not a case-insensitive
  match of one of the six verbs; any case variant of a verb (a string whose upper-case
  form is the verb) is accepted.
\<close>

theorem tokenize_MethodNotAllowed_iff:
  assumes "CHR '':'' \<notin> set m" and "CHR '':'' \<notin> set u"
  shows "(tokenize (m @ '':'' @ u) = Inl ErrMethodNotAllowed)
           = (\<not> (\<exists>v \<in> set methods. fold_equal v m))
         \<and> (map upper m \<in> set methods
              \<longrightarrow> tokenize (m @ '':'' @ u) \<noteq> Inl ErrMethodNotAllowed)"
  unfolding tokenize_MNA [OF assms]
  using case_variant_valid [of m]
  by (auto simp: isValidMethod_iff)

theorem tokenize_MethodNotAllowed_iff_witness:
  "tokenize (''oPtIoNs'' @ '':'' @ ''/x'') \<noteq> Inl ErrMethodNotAllowed
   \<and> tokenize (''PATCH'' @ '':'' @ ''/x'') = Inl ErrMethodNotAllowed"
proof -
  have a: "CHR '':'' \<notin> set ''oPtIoNs''" and b: "CHR '':'' \<notin> set ''PATCH''"
    and c: "CHR '':'' \<notin> set ''/x''"
    by simp_all
  have u: "map upper ''oPtIoNs'' \<in> set methods"
    by code_simp
  have "\<not> isValidMethod ''PATCH''"
    by code_simp
  with isValidMethod_iff [of "''PATCH''"]
  have n: "\<not> (\<exists>v \<in> set methods. fold_equal v ''PATCH'')"
    by blast
  from tokenize_MethodNotAllowed_iff [OF a c] u
  have "tokenize (''oPtIoNs'' @ '':'' @ ''/x'') \<noteq> Inl ErrMethodNotAllowed"
    by blast
  moreover from tokenize_MethodNotAllowed_iff [OF b c] n
  have "tokenize (''PATCH'' @ '':'' @ ''/x'') = Inl ErrMethodNotAllowed"
    by blast
  ultimately show ?thesis by blast
qed

text \<open>
  C1, as the code has it. For a spec \<open>m:u\<close> that \<open>tokenize\<close> accepts, the method
  returned is \<open>m\<close> exactly as it was written, in the case it was written in; \<open>m\<close> is a
  case-insensitive match of one of the six verbs. Nothing puts it in upper case.
\<close>

theorem tokenize_method_as_written:
  assumes "tokenize (m @ '':'' @ u) = Inr (m', h, p)"
  shows "m' = m \<and> (\<exists>v \<in> set methods. fold_equal v m)"
  using tokenize_Inr_D [OF assms] by (simp add: isValidMethod_iff)

theorem tokenize_method_as_written_witness:
  "''get'' = ''get'' \<and> (\<exists>v \<in> set methods. fold_equal v ''get'')"
proof -
  have "tokenize (''get'' @ '':'' @ ''/x'') = Inr (''get'', [], ''x'')"
    by code_simp
  then show ?thesis
    by (rule tokenize_method_as_written)
qed

text \<open>
  C1 as stated fails: the spec \<open>get:/x\<close> is valid, and the method \<open>tokenize\<close> returns for
  it is \<open>get\<close>, not \<open>GET\<close>.
\<close>

theorem tokenize_method_not_uppercased:
  "tokenize ''get:/x'' = Inr (''get'', [], ''x'') \<and> ''get'' \<noteq> map upper ''get''
   \<and> map upper ''get'' = ''GET''"
  by code_simp

section \<open>Host and path\<close>

text \<open>
  The URL part that reaches \<open>url.Parse\<close> holds no \<open>:\<close>, so no scheme is found; an
  authority is read only from a string that begins with two slashes.
\<close>

lemma getscheme_loop_no_colon:
  "CHR '':'' \<notin> set s \<Longrightarrow> getscheme_loop raw i s = Inr ([], raw)"
  by (induction s arbitrary: i) auto

lemma getscheme_no_colon: "CHR '':'' \<notin> set s \<Longrightarrow> getscheme s = Inr ([], s)"
  by (simp add: getscheme_def getscheme_loop_no_colon)

lemma split_no_sep: "c \<notin> set s \<Longrightarrow> split s c b = (s, [])"
  by (simp add: split_def IndexByte_None_iff [THEN iffD2])

lemma prefix_fst_split: "prefix (fst (split s c b)) s"
  by (auto simp: split_def take_is_prefix split: option.splits)

lemma set_fst_split: "set (fst (split s c b)) \<subseteq> set s"
  by (auto simp: split_def split: option.splits dest: in_set_takeD)

lemma unescape_no_percent:
  "unescape s mode = Inr p \<Longrightarrow> CHR ''%'' \<notin> set s \<Longrightarrow> mode \<noteq> encodeQueryComponent \<Longrightarrow> p = s"
  by (auto simp: unescape_def Count_def count_list_0_notin split: option.splits if_splits)

text \<open>The part of the URL that \<open>parse\<close> looks for the authority and the path in.\<close>

lemma parse_no_authority:
  assumes "parse s False = Inr url" and "CHR '':'' \<notin> set s" and "\<not> prefix ''//'' s"
  shows "Host url = []"
proof -
  let ?rest = "if HasSuffix s ''?'' \<and> Count s CHR ''?'' = 1
               then take (length s - 1) s else fst (split s CHR ''?'' True)"
  have pre: "prefix ?rest s"
    by (simp add: take_is_prefix prefix_fst_split)
  have "\<not> prefix ''//'' ?rest"
    using pre assms(3) prefix_order.trans by blast
  then have na: "\<not> HasPrefix ?rest ''//''"
    by (simp add: HasPrefix_def)
  from assms(1) show ?thesis
    using na
    by (auto simp: parse_def getscheme_no_colon [OF assms(2)] Let_def setPath_def
             split: if_splits sum.splits)
qed

lemma Parse_no_authority:
  assumes "Parse s = Inr url" and "CHR '':'' \<notin> set s" and "\<not> prefix ''//'' s"
  shows "Host url = []"
proof -
  let ?u = "fst (split s CHR ''#'' True)"
  from assms(1) have p: "parse ?u False = Inr url"
    by (auto simp: Parse_def Let_def split: sum.splits if_splits)
  have c: "CHR '':'' \<notin> set ?u"
    using set_fst_split assms(2) by fastforce
  have n: "\<not> prefix ''//'' ?u"
    using prefix_fst_split assms(3) prefix_order.trans by blast
  show ?thesis
    by (rule parse_no_authority [OF p c n])
qed

lemma Parse_plain:
  assumes "Parse s = Inr url" and "CHR '':'' \<notin> set s" and "\<not> prefix ''//'' s"
    and "CHR ''?'' \<notin> set s" and "CHR ''#'' \<notin> set s" and "CHR ''%'' \<notin> set s"
  shows "url = \<lparr>Host = [], Path = s\<rparr>"
proof -
  have sp: "split s CHR ''#'' True = (s, [])" "split s CHR ''?'' True = (s, [])"
    using assms(4,5) by (simp_all add: split_no_sep)
  have ns: "\<not> HasSuffix s ''?''"
    using assms(4) by (auto simp: HasSuffix_def suffix_def)
  have na: "\<not> HasPrefix s ''//''"
    using assms(3) by (simp add: HasPrefix_def)
  from assms(1) have p: "parse s False = Inr url"
    by (simp add: Parse_def sp Let_def split: sum.splits)
  then show ?thesis
    using ns na assms(6)
    by (auto simp: parse_def getscheme_no_colon [OF assms(2)] sp Let_def setPath_def
             IndexByte_None_iff [THEN iffD2, OF assms(2)]
             split: if_splits sum.splits dest: unescape_no_percent)
qed

lemma TrimSuffix_slash_snoc:
  "TrimSuffix (w @ [c]) ''/'' = (if c = CHR ''/'' then w else w @ [c])"
  by (auto simp: TrimSuffix_def HasSuffix_def suffix_def)

lemma TrimSuffix_Nil [simp]: "TrimSuffix [] ''/'' = []"
  by (simp add: TrimSuffix_def HasSuffix_def)

lemma TrimPrefix_slash_Cons:
  "TrimPrefix (c # w) ''/'' = (if c = CHR ''/'' then w else c # w)"
  by (auto simp: TrimPrefix_def HasPrefix_def)

lemma TrimPrefix_Nil [simp]: "TrimPrefix [] ''/'' = []"
  by (simp add: TrimPrefix_def HasPrefix_def)

lemma prefix_TrimSuffix: "prefix (TrimSuffix v ''/'') v"
  by (simp add: TrimSuffix_def take_is_prefix)

lemma set_TrimSuffix: "set (TrimSuffix v p) \<subseteq> set v"
  by (auto simp: TrimSuffix_def dest: in_set_takeD)

lemma set_TrimPrefix: "set (TrimPrefix v p) \<subseteq> set v"
  by (auto simp: TrimPrefix_def dest: in_set_dropD)

lemma set_trimmed: "set (trimmed u) \<subseteq> insert CHR ''/'' (set u)"
  using set_TrimSuffix [of "TrimPrefix u ''/''" "''/''"] set_TrimPrefix [of u "''/''"]
  by (auto simp: trimmed_def Let_def)

lemma trimmed_no_authority:
  assumes "\<not> prefix ''///'' u"
  shows "\<not> prefix ''//'' (trimmed u)"
proof
  assume a: "prefix ''//'' (trimmed u)"
  then have "trimmed u \<noteq> ''/''" by auto
  then have t: "trimmed u = TrimSuffix (TrimPrefix u ''/'') ''/''"
    by (auto simp: trimmed_def Let_def split: if_splits)
  with a prefix_TrimSuffix [of "TrimPrefix u ''/''"]
  have "prefix ''//'' (TrimPrefix u ''/'')"
    using prefix_order.trans by metis
  with assms show False
    by (cases u) (auto simp: TrimPrefix_slash_Cons split: if_splits)
qed

lemma trimmed_shape:
  assumes "\<not> prefix ''//'' u" and "\<not> suffix ''//'' u"
  shows "trimmed u = ''/''
         \<or> (trimmed u \<noteq> [] \<and> hd (trimmed u) \<noteq> CHR ''/'' \<and> last (trimmed u) \<noteq> CHR ''/'')"
proof -
  let ?v = "TrimPrefix u ''/''"
  have hv: "?v = [] \<or> hd ?v \<noteq> CHR ''/''"
    using assms(1) by (cases u; cases "tl u") (auto simp: TrimPrefix_slash_Cons)
  have "suffix ?v u"
    by (simp add: TrimPrefix_def suffix_drop)
  then have sv: "\<not> suffix ''//'' ?v"
    using assms(2) suffix_order.trans by blast
  have tr: "trimmed u = (if TrimSuffix ?v ''/'' = [] then ''/'' else TrimSuffix ?v ''/'')"
    by (simp add: trimmed_def Let_def)
  show ?thesis
  proof (cases ?v rule: rev_cases)
    case Nil
    then show ?thesis by (simp add: tr)
  next
    case (snoc w c)
    have ts: "TrimSuffix ?v ''/'' = (if c = CHR ''/'' then w else w @ [c])"
      by (simp only: snoc TrimSuffix_slash_snoc)
    from hv snoc have hw: "hd (w @ [c]) \<noteq> CHR ''/''"
      by simp
    show ?thesis
    proof (cases "c = CHR ''/''")
      case False
      with hw show ?thesis
        by (simp add: tr ts)
    next
      case True
      show ?thesis
      proof (cases w rule: rev_cases)
        case Nil
        with True show ?thesis
          by (simp add: tr ts)
      next
        case (snoc w' d)
        with \<open>?v = w @ [c]\<close> True sv have "d \<noteq> CHR ''/''"
          by (auto simp: suffix_def)
        moreover from hw snoc have "hd w \<noteq> CHR ''/''"
          by (cases w') simp_all
        ultimately show ?thesis
          using snoc True by (simp add: tr ts)
      qed
    qed
  qed
qed

lemma tokenize_plain:
  assumes "tokenize (m @ '':'' @ u) = Inr (m', h, p)" and "\<not> prefix ''///'' u"
  shows "h = []"
    and "CHR ''?'' \<notin> set u \<Longrightarrow> CHR ''#'' \<notin> set u \<Longrightarrow> CHR ''%'' \<notin> set u \<Longrightarrow> p = trimmed u"
proof -
  from tokenize_Inr_D [OF assms(1)]
  have nu: "CHR '':'' \<notin> set u" and P: "Parse (trimmed u) = Inr \<lparr>Host = h, Path = p\<rparr>"
    by simp_all
  have c: "CHR '':'' \<notin> set (trimmed u)"
    using set_trimmed [of u] nu by auto
  have n: "\<not> prefix ''//'' (trimmed u)"
    by (rule trimmed_no_authority [OF assms(2)])
  from Parse_no_authority [OF P c n] show "h = []" by simp
  assume "CHR ''?'' \<notin> set u" "CHR ''#'' \<notin> set u" "CHR ''%'' \<notin> set u"
  then have "CHR ''?'' \<notin> set (trimmed u)" "CHR ''#'' \<notin> set (trimmed u)"
    "CHR ''%'' \<notin> set (trimmed u)"
    using set_trimmed [of u] by auto
  from Parse_plain [OF P c n this] show "p = trimmed u" by simp
qed

text \<open>
  C3, as the code has it. For a spec \<open>m:u\<close> that \<open>tokenize\<close> accepts and whose URL part
  \<open>u\<close> does not begin with three slashes (the form host/path and the bare path alike), the
  host returned is empty; what looks like an authority stays in the path: when \<open>u\<close> holds
  no \<open>?\<close>, \<open>#\<close> or \<open>%\<close>, the path is \<open>u\<close> with one leading and one trailing slash removed.
\<close>

theorem tokenize_host_empty:
  assumes "tokenize (m @ '':'' @ u) = Inr (m', h, p)" and "\<not> prefix ''///'' u"
  shows "h = [] \<and> (CHR ''?'' \<notin> set u \<and> CHR ''#'' \<notin> set u \<and> CHR ''%'' \<notin> set u
                    \<longrightarrow> p = trimmed u)"
  using tokenize_plain [OF assms] by blast

theorem tokenize_host_empty_witness:
  "[] = ([] :: string) \<and> ''api.example.com/users'' = trimmed ''api.example.com/users''"
proof -
  have t: "tokenize (''POST'' @ '':'' @ ''api.example.com/users'')
           = Inr (''POST'', [], ''api.example.com/users'')"
    by code_simp
  have n: "\<not> prefix ''///'' ''api.example.com/users''"
    by simp
  have q: "CHR ''?'' \<notin> set ''api.example.com/users'' \<and> CHR ''#'' \<notin> set ''api.example.com/users''
           \<and> CHR ''%'' \<notin> set ''api.example.com/users''"
    by simp
  from tokenize_host_empty [OF t n] q show ?thesis
    by blast
qed

text \<open>
  C3 as stated fails: for \<open>POST:api.example.com/users\<close> the host is empty and the path is
  \<open>api.example.com/users\<close>.
\<close>

theorem tokenize_host_path_counterexample:
  "tokenize ''POST:api.example.com/users'' = Inr (''POST'', [], ''api.example.com/users'')"
  by code_simp

text \<open>
  The state threaded through \<open>tokenize_run\<close> comes back as it went in, and the result is
  that of \<open>tokenize\<close>, with the error variables read from the state.
\<close>

lemma tokenize_run_state: "snd (tokenize_run \<sigma> raw) = \<sigma>"
  by (simp add: tokenize_run_def Let_def split: sum.splits)

lemma tokenize_run_result:
  "fst (tokenize_run \<sigma> raw) =
     (case tokenize raw of
        Inr t \<Rightarrow> Inr t
      | Inl ErrBadPath \<Rightarrow> Inl (PanicError (varErrBadPath \<sigma>))
      | Inl ErrMethodNotAllowed \<Rightarrow> Inl (PanicError (varErrMethodNotAllowed \<sigma>))
      | Inl ErrNilHandler \<Rightarrow> Inl (PanicError (varErrNilHandler \<sigma>))
      | Inl (UrlError e) \<Rightarrow> Inl (PanicUrlError e)
      | Inl (PanicString s) \<Rightarrow> Inl (PanicError (errorString s)))"
  by (simp add: tokenize_run_def tokenize_def Let_def split: sum.splits)

lemma tokenize_run_Inr: "(fst (tokenize_run \<sigma> raw) = Inr t) = (tokenize raw = Inr t)"
  by (simp add: tokenize_run_result split: sum.splits panic.splits)

text \<open>
  C9. A call of \<open>tokenize\<close> leaves the program state as it found it, and the triple it
  returns does not depend on the state: in any two states, and so in any two calls, the
  same input gives the same (method, host, path), the one \<open>tokenize\<close> computes from the
  string alone; a second call right after the first gives the first one's result.
\<close>

theorem tokenize_no_side_effect:
  "snd (tokenize_run \<sigma> raw) = \<sigma>
   \<and> (fst (tokenize_run \<sigma> raw) = Inr t) = (tokenize raw = Inr t)
   \<and> (fst (tokenize_run \<sigma> raw) = Inr t) = (fst (tokenize_run \<sigma>' raw) = Inr t)
   \<and> fst (tokenize_run (snd (tokenize_run \<sigma> raw)) raw) = fst (tokenize_run \<sigma> raw)"
  by (simp add: tokenize_run_state tokenize_run_Inr)

section \<open>The registry\<close>

lemma match_loop_first:
  assumes "\<forall>x \<in> set pre. \<not> (method' x = m \<and> host x = hst \<and> path x = pth)"
    and "method' a = m" "host a = hst" "path a = pth"
  shows "match_loop (pre @ a # post) m hst pth = handler a"
  using assms by (induction pre) auto

text \<open>
  C8. With a nil handler both calls panic before the route sequence is touched, and the
  router after the call is the router before it. \<open>Handle\<close> panics with \<open>ErrNilHandler\<close>;
  \<open>HandleFunc\<close> panics with the string \<open>router: nill handler provided\<close>, which is not
  \<open>ErrNilHandler\<close>.
\<close>

theorem HandleFunc_nil_panic_value:
  "Handle r p None = (Some ErrNilHandler, r)
   \<and> HandleFunc r p None = (Some (PanicString ''router: nill handler provided''), r)
   \<and> fst (HandleFunc r p None) \<noteq> Some ErrNilHandler"
  by (simp add: Handle_def HandleFunc_def)

text \<open>
  C10. A successful \<open>Handle\<close> appends exactly one route, the one \<open>tokenize\<close> gives with the
  handler passed in: the sequence is one longer, and the routes that were there are
  there still, in their order.
\<close>

theorem Handle_appends_one:
  assumes "Handle r p h = (None, r')"
  shows "\<exists>m hst pth. tokenize p = Inr (m, hst, pth)
           \<and> routes r' = routes r @ [\<lparr>method' = m, host = hst, path = pth, handler = h\<rparr>]
           \<and> length (routes r') = length (routes r) + 1
           \<and> take (length (routes r)) (routes r') = routes r"
  using assms
  by (auto simp: Handle_def split: if_splits sum.splits)

theorem Handle_appends_one_witness:
  "\<exists>m hst pth. tokenize ''GET:/x'' = Inr (m, hst, pth)
      \<and> routes \<lparr>routes = [\<lparr>method' = ''GET'', host = [], path = ''/'',
                             handler = Some (Handler (1::nat)) :: (nat, nat) Handler option\<rparr>,
                          \<lparr>method' = ''GET'', host = [], path = ''x'',
                             handler = Some (Handler 2)\<rparr>]\<rparr>
        = routes \<lparr>routes = [\<lparr>method' = ''GET'', host = [], path = ''/'',
                               handler = Some (Handler 1)\<rparr>]\<rparr>
            @ [\<lparr>method' = m, host = hst, path = pth, handler = Some (Handler 2)\<rparr>]
      \<and> length (routes \<lparr>routes = [\<lparr>method' = ''GET'', host = [], path = ''/'',
                             handler = Some (Handler (1::nat)) :: (nat, nat) Handler option\<rparr>,
                          \<lparr>method' = ''GET'', host = [], path = ''x'',
                             handler = Some (Handler 2)\<rparr>]\<rparr>)
        = length (routes \<lparr>routes = [\<lparr>method' = ''GET'', host = [], path = ''/'',
                             handler = Some (Handler (1::nat)) :: (nat, nat) Handler option\<rparr>]\<rparr>)
          + 1
      \<and> take (length (routes \<lparr>routes = [\<lparr>method' = ''GET'', host = [], path = ''/'',
                             handler = Some (Handler (1::nat)) :: (nat, nat) Handler option\<rparr>]\<rparr>))
           (routes \<lparr>routes = [\<lparr>method' = ''GET'', host = [], path = ''/'',
                             handler = Some (Handler (1::nat)) :: (nat, nat) Handler option\<rparr>,
                          \<lparr>method' = ''GET'', host = [], path = ''x'',
                             handler = Some (Handler 2)\<rparr>]\<rparr>)
        = routes \<lparr>routes = [\<lparr>method' = ''GET'', host = [], path = ''/'',
                               handler = Some (Handler 1)\<rparr>]\<rparr>"
proof -
  have "Handle \<lparr>routes = [\<lparr>method' = ''GET'', host = [], path = ''/'',
                            handler = Some (Handler (1::nat)) :: (nat, nat) Handler option\<rparr>]\<rparr>
          ''GET:/x'' (Some (Handler 2))
     = (None, \<lparr>routes = [\<lparr>method' = ''GET'', host = [], path = ''/'',
                            handler = Some (Handler 1)\<rparr>,
                         \<lparr>method' = ''GET'', host = [], path = ''x'',
                            handler = Some (Handler 2)\<rparr>]\<rparr>)"
    by code_simp
  then show ?thesis
    by (rule Handle_appends_one)
qed

lemma Handle_plain_path:
  assumes "Handle r (m @ '':'' @ u) h = (e, r')" and "plain_url u"
    and "\<forall>rt \<in> set (routes r). bare_path (path rt)"
  shows "\<forall>rt \<in> set (routes r'). bare_path (path rt)"
proof (cases "tokenize (m @ '':'' @ u)")
  case (Inl err)
  with assms(1) have "r' = r"
    by (auto simp: Handle_def split: if_splits)
  with assms(3) show ?thesis by simp
next
  case (Inr t)
  obtain m' hst p where t: "t = (m', hst, p)" by (cases t)
  from assms(2) have n3: "\<not> prefix ''///'' u"
    by (auto simp: plain_url_def prefix_def)
  from tokenize_plain [OF Inr [unfolded t] n3] assms(2)
  have p: "p = trimmed u" by (simp add: plain_url_def)
  from assms(2) have "bare_path (trimmed u)"
    using trimmed_shape [of u] by (simp add: plain_url_def bare_path_def)
  with p have "bare_path p" by simp
  with assms(1,3) Inr t show ?thesis
    by (auto simp: Handle_def split: if_splits)
qed

text \<open>
  C4, as the code has it. In every router reached by registrations whose URL part is
  plain, the path of every route is the root \<open>/\<close> or is not empty and has a slash neither
  at its end nor at its start: the leading slash of the spec is removed and not put back.
\<close>

theorem registered_paths_bare:
  assumes "registered r" and "rt \<in> set (routes r)"
  shows "path rt = ''/''
         \<or> (path rt \<noteq> [] \<and> hd (path rt) \<noteq> CHR ''/'' \<and> last (path rt) \<noteq> CHR ''/'')"
proof -
  from assms(1) have "\<forall>rt \<in> set (routes r). bare_path (path rt)"
  proof (induction rule: registered.induct)
    case registered_New
    show ?case by (simp add: New_def)
  next
    case (registered_Handle r u m h e r')
    then show ?case
      using Handle_plain_path by blast
  next
    case (registered_HandleFunc r u m f e r')
    then show ?case
      using Handle_plain_path [of r m u _ e r']
      by (auto simp: HandleFunc_def split: option.splits)
  qed
  with assms(2) show ?thesis
    by (simp add: bare_path_def)
qed

theorem registered_paths_bare_witness:
  "''path-one'' = ''/''
   \<or> (''path-one'' \<noteq> [] \<and> hd ''path-one'' \<noteq> CHR ''/'' \<and> last ''path-one'' \<noteq> CHR ''/'')"
proof -
  let ?r1 = "\<lparr>routes = [\<lparr>method' = ''GET'', host = [], path = ''/'',
                           handler = Some (Handler (1::nat)) :: (nat, nat) Handler option\<rparr>]\<rparr>"
  let ?rt = "\<lparr>method' = ''GET'', host = [], path = ''path-one'',
               handler = Some (Handler (2::nat)) :: (nat, nat) Handler option\<rparr>"
  let ?r2 = "\<lparr>routes = [\<lparr>method' = ''GET'', host = [], path = ''/'',
                           handler = Some (Handler (1::nat)) :: (nat, nat) Handler option\<rparr>, ?rt]\<rparr>"
  have h1: "Handle (New :: (nat, nat) Router) (''GET'' @ '':'' @ ''/'') (Some (Handler 1))
            = (None, ?r1)"
    by code_simp
  have h2: "Handle ?r1 (''GET'' @ '':'' @ ''/path-one'') (Some (Handler 2)) = (None, ?r2)"
    by code_simp
  have p1: "plain_url ''/''" and p2: "plain_url ''/path-one''"
    by (simp_all add: plain_url_def suffix_def)
  have "registered ?r1"
    by (rule registered_Handle [OF registered_New p1 h1])
  then have r: "registered ?r2"
    by (rule registered_Handle [OF _ p2 h2])
  have m: "?rt \<in> set (routes ?r2)"
    by simp
  from registered_paths_bare [OF r m] show ?thesis
    by simp
qed

text \<open>
  C4 as stated fails: the route stored for \<open>GET:/path-one\<close> has the path \<open>path-one\<close>, which
  does not start with \<open>/\<close>; the one for \<open>GET:/a//\<close> has the path \<open>a/\<close>, which ends with a
  slash; the one for \<open>GET:?q\<close> has the empty path.
\<close>

theorem stored_path_counterexample:
  "map path (routes (snd (Handle (New :: (nat, nat) Router) ''GET:/path-one'' (Some (Handler 1)))))
     = [''path-one'']
   \<and> map path (routes (snd (Handle (New :: (nat, nat) Router) ''GET:/a//'' (Some (Handler 1)))))
     = [''a/'']
   \<and> map path (routes (snd (Handle (New :: (nat, nat) Router) ''GET:?q'' (Some (Handler 1)))))
     = [[]]"
  by code_simp

text \<open>
  C5. First match wins. A route is registered with handler \<open>ha\<close> on a router that had no
  route with its triple before. Whatever is registered after it, a second route with
  the same triple among it at any place, a request with that triple is given \<open>ha\<close>:
  \<open>match\<close> returns it and \<open>ServeHTTP\<close> serves the request with it and with no other.
\<close>

theorem first_match_wins:
  assumes "Handle r sa (Some ha) = (None, ra)"
    and "tokenize sa = Inr t"
    and "tokenize (Method rr @ '':'' @ Path (URL rr)) = Inr t"
    and "\<forall>x \<in> set (routes r). (method' x, host x, path x) \<noteq> t"
    and "routes r' = routes ra @ later"
  shows "match r' rr = Inr ha \<and> ServeHTTP serve r' rr = Inr (serve ha rr)"
proof -
  obtain m hst pth where t: "t = (m, hst, pth)" by (cases t)
  let ?a = "\<lparr>method' = m, host = hst, path = pth, handler = Some ha\<rparr>"
  from assms(1,2) t have "routes ra = routes r @ [?a]"
    by (auto simp: Handle_def)
  then have "routes r' = routes r @ ?a # later"
    using assms(5) by simp
  moreover have "\<forall>x \<in> set (routes r). \<not> (method' x = m \<and> host x = hst \<and> path x = pth)"
    using assms(4) t by auto
  ultimately have "match_loop (routes r') m hst pth = Some ha"
    using match_loop_first [of "routes r" m hst pth ?a later] by simp
  with assms(3) t have "match r' rr = Inr ha"
    by (simp add: match_def)
  then show ?thesis
    by (simp add: ServeHTTP_def)
qed

theorem first_match_wins_witness:
  "match (snd (Handle (snd (Handle (snd (Handle (New :: (nat, nat) Router)
                 ''GET:/x'' (Some (Handler 1))))
                 ''GET:/y'' (Some (Handler 3))))
                 ''GET:/x'' (Some (Handler 2))))
     \<lparr>Method = ''GET'', URL = \<lparr>Host = [], Path = ''/x''\<rparr>\<rparr> = Inr (Handler 1)
   \<and> ServeHTTP Pair
       (snd (Handle (snd (Handle (snd (Handle (New :: (nat, nat) Router)
                 ''GET:/x'' (Some (Handler 1))))
                 ''GET:/y'' (Some (Handler 3))))
                 ''GET:/x'' (Some (Handler 2))))
       \<lparr>Method = ''GET'', URL = \<lparr>Host = [], Path = ''/x''\<rparr>\<rparr>
     = Inr (Pair (Handler 1) \<lparr>Method = ''GET'', URL = \<lparr>Host = [], Path = ''/x''\<rparr>\<rparr>)"
proof -
  let ?ra = "snd (Handle (New :: (nat, nat) Router) ''GET:/x'' (Some (Handler 1)))"
  let ?rc = "snd (Handle ?ra ''GET:/y'' (Some (Handler 3)))"
  let ?rb = "snd (Handle ?rc ''GET:/x'' (Some (Handler 2)))"
  let ?later = "[\<lparr>method' = ''GET'', host = [], path = ''y'',
                   handler = Some (Handler (3::nat)) :: (nat, nat) Handler option\<rparr>,
                 \<lparr>method' = ''GET'', host = [], path = ''x'', handler = Some (Handler 2)\<rparr>]"
  have a: "Handle (New :: (nat, nat) Router) ''GET:/x'' (Some (Handler 1)) = (None, ?ra)"
    by code_simp
  have t: "tokenize ''GET:/x'' = Inr (''GET'', [], ''x'')"
    by code_simp
  have q: "tokenize (Method \<lparr>Method = ''GET'', URL = \<lparr>Host = [], Path = ''/x''\<rparr>\<rparr> @ '':''
             @ Path (URL \<lparr>Method = ''GET'', URL = \<lparr>Host = [], Path = ''/x''\<rparr>\<rparr>))
           = Inr (''GET'', [], ''x'')"
    by code_simp
  have n: "\<forall>x \<in> set (routes (New :: (nat, nat) Router)).
             (method' x, host x, path x) \<noteq> (''GET'', [], ''x'')"
    by (simp add: New_def)
  have l: "routes ?rb = routes ?ra @ ?later"
    by code_simp
  show ?thesis
    by (rule first_match_wins [OF a t q n l])
qed

text \<open>
  When the request tokenizes and no route has its triple, \<open>match\<close> gives the not-found
  handler.
\<close>

lemma match_loop_unmatched:
  "\<forall>x \<in> set rs. \<not> (method' x = m \<and> host x = hst \<and> path x = pth)
     \<Longrightarrow> match_loop rs m hst pth = None"
  by (induction rs) auto

lemma match_unmatched:
  assumes "tokenize (Method rr @ '':'' @ Path (URL rr)) = Inr (m, hst, pth)"
    and "\<forall>x \<in> set (routes r). \<not> (method' x = m \<and> host x = hst \<and> path x = pth)"
  shows "match r rr = Inr NotFoundHandler"
  using assms by (simp add: match_def match_loop_unmatched)

text \<open>
  C2. Dispatch does panic. \<open>match\<close> tokenizes the method and the path of the request, so
  a request whose path holds a \<open>:\<close> panics with \<open>ErrBadPath\<close>, and one whose method is not
  among the six verbs panics with \<open>ErrMethodNotAllowed\<close>; no not-found response is
  produced for either, here on the empty router.
\<close>

theorem match_panics:
  "match (New :: (nat, nat) Router)
       \<lparr>Method = ''GET'', URL = \<lparr>Host = [], Path = ''/a:b''\<rparr>\<rparr> = Inl ErrBadPath
   \<and> match (New :: (nat, nat) Router)
       \<lparr>Method = ''PATCH'', URL = \<lparr>Host = [], Path = ''/x''\<rparr>\<rparr> = Inl ErrMethodNotAllowed"
  by code_simp

end
